theory Spec2Isabelle
  imports Main "HOL-Library.AList"
begin

section \<open>Configuration trees of \<open>ms_agent/config/config.py\<close>\<close>

text \<open>
  A configuration document is what OmegaConf loads from YAML: a \<open>DictConfig\<close> (ordered,
  keys unique), a \<open>ListConfig\<close>, or a scalar leaf. \<open>DictConfig\<close> and \<open>ListConfig\<close> are the
  two subclasses of \<open>BaseContainer\<close>; a leaf is everything else (\<open>None\<close>, a boolean, a
  number, a string). The code only ever asks of a leaf whether it is a \<open>str\<close>, so the other
  number kinds behave as \<open>VInt\<close> does. Python dictionaries keep insertion order and are
  association lists here; \<open>AList.update\<close> overwrites in place or appends, as item assignment
  does. OmegaConf's interpolation and missing-value markers are outside the model: strings
  are stored and read back as they are.
\<close>

datatype scalar = VNone | VBool bool | VInt int | VStr string

datatype cfg =
    Scalar scalar
  | DictConfig "(string \<times> cfg) list"
  | ListConfig "cfg list"

type_synonym override = "(string \<times> string) list"

type_synonym dictconfig = "(string \<times> cfg) list"

datatype error =
    KeyError string
  | AssertionError string
  | AttributeError string

text \<open>\<open>isinstance(value, BaseContainer)\<close>\<close>

fun is_container :: "cfg \<Rightarrow> bool" where
  "is_container (Scalar s) = False"
| "is_container (DictConfig kvs) = True"
| "is_container (ListConfig xs) = True"

text \<open>
  Python truthiness, as \<open>if getattr(config, 'tools', None)\<close> and \<open>if getattr(server_config,
  'mcp', True)\<close> use it: \<open>None\<close>, \<open>False\<close>, zero, the empty string and the empty containers are
  false.
\<close>

fun truthy :: "cfg \<Rightarrow> bool" where
  "truthy (Scalar VNone) = False"
| "truthy (Scalar (VBool b)) = b"
| "truthy (Scalar (VInt i)) = (i \<noteq> 0)"
| "truthy (Scalar (VStr s)) = (s \<noteq> [])"
| "truthy (DictConfig kvs) = (kvs \<noteq> [])"
| "truthy (ListConfig xs) = (xs \<noteq> [])"

subsection \<open>Placeholder grammar\<close>

text \<open>\<open>value.startswith('<')\<close>, \<open>value.endswith('>')\<close>, \<open>key.startswith('--')\<close>, \<open>value[1:-1]\<close>\<close>

definition startswith :: "string \<Rightarrow> string \<Rightarrow> bool" where
  "startswith s p = (take (length p) s = p)"

definition endswith :: "string \<Rightarrow> string \<Rightarrow> bool" where
  "endswith s p = (length p \<le> length s \<and> drop (length s - length p) s = p)"

definition inner :: "string \<Rightarrow> string" where
  "inner s = butlast (tl s)"

text \<open>\<open>name in extra\<close>\<close>

definition has_key :: "override \<Rightarrow> string \<Rightarrow> bool" where
  "has_key extra k = (map_of extra k \<noteq> None)"

text \<open>
  The test of lines 208-210 and 223-225:
  \<open>isinstance(value, str) and value.startswith('<') and value.endswith('>') and value[1:-1] in extra\<close>
\<close>

fun is_placeholder :: "override \<Rightarrow> cfg \<Rightarrow> bool" where
  "is_placeholder extra (Scalar (VStr s)) =
     (startswith s ''<'' \<and> endswith s ''>'' \<and> has_key extra (inner s))"
| "is_placeholder extra v = False"

subsection \<open>The merge: \<open>Config._update_config\<close> and its inner \<open>traverse_config\<close>\<close>

text \<open>
  The body of the \<open>else\<close> branch of the mapping loop (lines 203-212) for one pair whose value
  is a leaf. Both \<open>if\<close> statements test the value read by \<open>items()\<close>, and both assign
  \<open>extra[name]\<close>; the second one raises \<open>KeyError\<close> when \<open>name\<close> is not a key of \<open>extra\<close>.
\<close>

definition dict_leaf :: "override \<Rightarrow> string \<Rightarrow> cfg \<Rightarrow> error + cfg" where
  "dict_leaf extra name value =
     (let cur = (case map_of extra name of
                   Some v \<Rightarrow> Scalar (VStr v)
                 | None \<Rightarrow> value)
      in if is_placeholder extra value
         then (case map_of extra name of
                 Some v \<Rightarrow> Inr (Scalar (VStr v))
               | None \<Rightarrow> Inl (KeyError name))
         else Inr cur)"

text \<open>
  The body of the \<open>else\<close> branch of the sequence loop (lines 222-227):
  \<open>_config[idx] = extra[value[1:-1]]\<close>.
\<close>

definition list_leaf :: "override \<Rightarrow> cfg \<Rightarrow> cfg" where
  "list_leaf extra value =
     (if is_placeholder extra value
      then (case value of
              Scalar (VStr s) \<Rightarrow> (case map_of extra (inner s) of
                                   Some v \<Rightarrow> Scalar (VStr v)
                                 | None \<Rightarrow> value)
            | _ \<Rightarrow> value)
      else value)"

text \<open>
  \<open>traverse_config\<close> mutates the tree in place and may raise in the middle. The model returns
  the tree as the call leaves it together with the exception, if one was raised: the pairs
  and elements after the failing one are untouched, the ones before keep their new values.
  Keys are unique in a \<open>DictConfig\<close>, so \<open>setattr(_config, name, v)\<close> inside the loop over
  \<open>_config.items()\<close> replaces the value of the pair being visited.
\<close>

fun traverse_config :: "override \<Rightarrow> cfg \<Rightarrow> cfg \<times> error option"
  and traverse_items :: "override \<Rightarrow> (string \<times> cfg) list \<Rightarrow> (string \<times> cfg) list \<times> error option"
  and traverse_elems :: "override \<Rightarrow> cfg list \<Rightarrow> cfg list \<times> error option"
where
  "traverse_config extra (Scalar s) = (Scalar s, None)"
| "traverse_config extra (DictConfig kvs) =
     (case traverse_items extra kvs of (kvs', e) \<Rightarrow> (DictConfig kvs', e))"
| "traverse_config extra (ListConfig xs) =
     (case traverse_elems extra xs of (xs', e) \<Rightarrow> (ListConfig xs', e))"
| "traverse_items extra [] = ([], None)"
| "traverse_items extra ((name, value) # rest) =
     (if is_container value
      then (case traverse_config extra value of
              (value', Some e) \<Rightarrow> ((name, value') # rest, Some e)
            | (value', None) \<Rightarrow>
                (case traverse_items extra rest of
                   (rest', e) \<Rightarrow> ((name, value') # rest', e)))
      else (case dict_leaf extra name value of
              Inl e \<Rightarrow> ((name, value) # rest, Some e)
            | Inr value' \<Rightarrow>
                (case traverse_items extra rest of
                   (rest', e) \<Rightarrow> ((name, value') # rest', e))))"
| "traverse_elems extra [] = ([], None)"
| "traverse_elems extra (value # rest) =
     (if is_container value
      then (case traverse_config extra value of
              (value', Some e) \<Rightarrow> (value' # rest, Some e)
            | (value', None) \<Rightarrow>
                (case traverse_elems extra rest of
                   (rest', e) \<Rightarrow> (value' # rest', e)))
      else (case traverse_elems extra rest of
              (rest', e) \<Rightarrow> (list_leaf extra value # rest', e)))"

text \<open>
  \<open>Config._update_config(config, extra)\<close>. \<open>extra\<close> defaults to \<open>None\<close>; \<open>not extra\<close> holds for
  \<open>None\<close> and for the empty dictionary, and then the function returns \<open>config\<close> at line 192.
  After a traversal it returns \<open>None\<close> (line 231). The result is the returned value or the
  raised exception, paired with the tree as the call leaves it.
\<close>

definition update_config :: "cfg \<Rightarrow> override option \<Rightarrow> (error + cfg option) \<times> cfg" where
  "update_config config extra =
     (case extra of
        None \<Rightarrow> (Inr (Some config), config)
      | Some ex \<Rightarrow>
          if ex = [] then (Inr (Some config), config)
          else (case traverse_config ex config of
                  (config', Some e) \<Rightarrow> (Inl e, config')
                | (config', None) \<Rightarrow> (Inr None, config')))"

subsection \<open>Command-line overrides: \<open>Config.parse_args\<close>\<close>

text \<open>
  \<open>argparse\<close> is a library: the parser of line 162 declares no argument, and the list
  \<open>unknown\<close> that \<open>parse_known_args()\<close> hands back (the tokens after the program name that
  the parser does not know) is the input here. The loop is
  \<open>for idx in range(1, len(unknown) - 1, 2)\<close>: it starts at index 1 and stops before the last
  index. The message of the failed assertion renders the whole list; the model keeps its
  fixed part.
\<close>

function parse_loop :: "string list \<Rightarrow> nat \<Rightarrow> override \<Rightarrow> error + override" where
  "parse_loop unknown idx dict_config =
     (if idx < length unknown - 1
      then (let key = unknown ! idx;
                value = unknown ! (idx + 1)
            in if startswith key ''--''
               then parse_loop unknown (idx + 2) (AList.update (drop 2 key) value dict_config)
               else Inl (AssertionError ''Parameter not correct''))
      else Inr dict_config)"
  by pat_completeness auto
termination
  by (relation "measure (\<lambda>(unknown, idx, d). length unknown - idx)") auto

declare parse_loop.simps [simp del]

definition parse_args :: "string list \<Rightarrow> error + override" where
  "parse_args unknown = (if unknown \<noteq> [] then parse_loop unknown 1 [] else Inr [])"

subsection \<open>The document finisher and the classification\<close>

text \<open>
  The functions annotated \<open>config: DictConfig\<close> take the pairs of the mapping. Attribute
  assignment \<open>config.k = v\<close> on a \<open>DictConfig\<close> overwrites the value of \<open>k\<close> or appends the
  pair; \<open>hasattr(config, k)\<close> is whether \<open>k\<close> is a key.
\<close>

definition set_attr :: "string \<Rightarrow> cfg \<Rightarrow> dictconfig \<Rightarrow> dictconfig" where
  "set_attr k v config = AList.update k v config"

definition absent_or_none :: "dictconfig \<Rightarrow> string \<Rightarrow> bool" where
  "absent_or_none config k = (map_of config k = None \<or> map_of config k = Some (Scalar VNone))"

definition fill_missing_fields :: "dictconfig \<Rightarrow> dictconfig" where
  "fill_missing_fields config =
     (let config1 = (if absent_or_none config ''tools''
                     then set_attr ''tools'' (DictConfig []) config else config);
          config2 = (if absent_or_none config1 ''callbacks''
                     then set_attr ''callbacks'' (ListConfig []) config1 else config1)
      in config2)"

text \<open>
  \<open>Config.is_workflow\<close>: reading \<open>config.name\<close> when the key is absent raises (OmegaConf's
  attribute error); a \<open>None\<close> value fails the assertion of line 150.
\<close>

definition is_workflow :: "dictconfig \<Rightarrow> error + bool" where
  "is_workflow config =
     (case map_of config ''name'' of
        None \<Rightarrow> Inl (AttributeError ''name'')
      | Some name \<Rightarrow>
          if name = Scalar VNone
          then Inl (AssertionError ''Cannot find a valid name in this config'')
          else Inr (name \<in> set [Scalar (VStr ''workflow.yaml''), Scalar (VStr ''workflow.yml'')]))"

subsection \<open>The MCP projection: \<open>Config.convert_mcp_servers_to_json\<close>\<close>

text \<open>
  \<open>getattr(obj, k, default)\<close>: the value of key \<open>k\<close> of a \<open>DictConfig\<close>, the default when the
  key is absent or the object is not a mapping.
\<close>

fun getattr_default :: "cfg \<Rightarrow> string \<Rightarrow> cfg \<Rightarrow> cfg" where
  "getattr_default (DictConfig kvs) k d = (case map_of kvs k of Some v \<Rightarrow> v | None \<Rightarrow> d)"
| "getattr_default c k d = d"

text \<open>
  The loop of lines 250-254 over \<open>config.tools.items()\<close>; \<open>deepcopy(server_config)\<close> is the
  value itself, whole.
\<close>

fun mcp_loop :: "dictconfig \<Rightarrow> dictconfig \<Rightarrow> dictconfig" where
  "mcp_loop [] servers = servers"
| "mcp_loop ((server, server_config) # rest) servers =
     (if truthy (getattr_default server_config ''mcp'' (Scalar (VBool True)))
      then mcp_loop rest (AList.update server server_config servers)
      else mcp_loop rest servers)"

text \<open>
  The result is the dictionary \<open>{'mcpServers': {...}}\<close>. A truthy \<open>tools\<close> that is not a
  mapping has no \<open>items()\<close>.
\<close>

definition convert_mcp_servers_to_json :: "cfg \<Rightarrow> error + (string \<times> dictconfig) list" where
  "convert_mcp_servers_to_json config =
     (let tools = getattr_default config ''tools'' (Scalar VNone)
      in if truthy tools
         then (case tools of
                 DictConfig items \<Rightarrow> Inr [(''mcpServers'', mcp_loop items [])]
               | _ \<Rightarrow> Inl (AttributeError ''items''))
         else Inr [(''mcpServers'', [])])"

subsection \<open>The resolution pipeline: \<open>Config.from_task\<close> from line 106 on\<close>

text \<open>
  Lines 81-104 find and load the document (file system, remote fetch, YAML parser); their
  outcome is the loaded \<open>config\<close>, the file \<open>name\<close> and the directory \<open>config_dir\<close>, which are
  parameters here, as are \<open>envs\<close>, the dictionary \<open>Env.load_env(env)\<close> returns, and \<open>unknown\<close>,
  the unrecognised command-line tokens. The result is the returned document or the raised
  exception, paired with the tree as it stands at that moment. Attribute assignment on a
  document that is not a mapping raises.
\<close>

definition from_task ::
  "cfg \<Rightarrow> string \<Rightarrow> string \<Rightarrow> override \<Rightarrow> string list \<Rightarrow> (error + cfg) \<times> cfg" where
  "from_task config name config_dir envs unknown =
     (case update_config config (Some envs) of
        (Inl e, config1) \<Rightarrow> (Inl e, config1)
      | (Inr r1, config1) \<Rightarrow>
          (case parse_args unknown of
             Inl e \<Rightarrow> (Inl e, config1)
           | Inr dict_config \<Rightarrow>
               (case update_config config1 (Some dict_config) of
                  (Inl e, config2) \<Rightarrow> (Inl e, config2)
                | (Inr r2, config2) \<Rightarrow>
                    (case config2 of
                       DictConfig kvs \<Rightarrow>
                         (let kvs1 = set_attr ''local_dir'' (Scalar (VStr config_dir)) kvs;
                              kvs2 = set_attr ''name'' (Scalar (VStr name)) kvs1;
                              kvs3 = fill_missing_fields kvs2
                          in (Inr (DictConfig kvs3), DictConfig kvs3))
                     | _ \<Rightarrow> (Inl (AttributeError ''local_dir''), config2)))))"

subsection \<open>Positions in a tree\<close>

text \<open>
  A position is the list of keys and indices that leads from the root to a node; \<open>lookup\<close>
  reads the node there, as \<open>config.a.b[0]\<close> does.
\<close>

datatype step = Key string | Index nat

fun lookup :: "cfg \<Rightarrow> step list \<Rightarrow> cfg option" where
  "lookup c [] = Some c"
| "lookup (DictConfig kvs) (Key k # p) =
     (case map_of kvs k of None \<Rightarrow> None | Some v \<Rightarrow> lookup v p)"
| "lookup (ListConfig xs) (Index i # p) =
     (if i < length xs then lookup (xs ! i) p else None)"
| "lookup c (s # p) = None"

text \<open>
  Two trees have the same shape when they agree on everything but the values of their
  leaves: the same keys in the same order, the same lengths, containers where containers are.
\<close>

fun same_shape :: "cfg \<Rightarrow> cfg \<Rightarrow> bool"
  and same_items :: "(string \<times> cfg) list \<Rightarrow> (string \<times> cfg) list \<Rightarrow> bool"
  and same_elems :: "cfg list \<Rightarrow> cfg list \<Rightarrow> bool"
where
  "same_shape (Scalar a) (Scalar b) = True"
| "same_shape (DictConfig kvs) (DictConfig kvs') = same_items kvs kvs'"
| "same_shape (ListConfig xs) (ListConfig xs') = same_elems xs xs'"
| "same_shape (Scalar a) (DictConfig kvs') = False"
| "same_shape (Scalar a) (ListConfig xs') = False"
| "same_shape (DictConfig kvs) (Scalar b) = False"
| "same_shape (DictConfig kvs) (ListConfig xs') = False"
| "same_shape (ListConfig xs) (Scalar b) = False"
| "same_shape (ListConfig xs) (DictConfig kvs') = False"
| "same_items [] [] = True"
| "same_items ((k, v) # r) ((k', v') # r') = (k = k' \<and> same_shape v v' \<and> same_items r r')"
| "same_items [] (x # r') = False"
| "same_items (x # r) [] = False"
| "same_elems [] [] = True"
| "same_elems (v # r) (v' # r') = (same_shape v v' \<and> same_elems r r')"
| "same_elems [] (x # r') = False"
| "same_elems (x # r) [] = False"

section \<open>Properties of the traversal\<close>

subsection \<open>The traversal keeps the shape\<close>

lemma dict_leaf_kind: "\<not> is_container v \<Longrightarrow> dict_leaf extra k v = Inr v' \<Longrightarrow> \<not> is_container v'"
  by (auto simp: dict_leaf_def Let_def split: option.splits if_splits)

lemma list_leaf_kind: "\<not> is_container v \<Longrightarrow> \<not> is_container (list_leaf extra v)"
  by (auto simp: list_leaf_def split: option.splits cfg.splits scalar.splits)

lemma same_shape_leaves: "\<not> is_container v \<Longrightarrow> \<not> is_container v' \<Longrightarrow> same_shape v v'"
  by (cases v; cases v') auto

lemma same_items_refl_aux: "\<forall>x\<in>set kvs. same_shape (snd x) (snd x) \<Longrightarrow> same_items kvs kvs"
  by (induction kvs) auto

lemma same_elems_refl_aux: "\<forall>v\<in>set xs. same_shape v v \<Longrightarrow> same_elems xs xs"
  by (induction xs) auto

lemma same_shape_refl: "same_shape c c"
proof (induction c)
  case (Scalar s)
  show ?case by simp
next
  case (DictConfig kvs)
  have "same_items kvs kvs"
    by (rule same_items_refl_aux) (use DictConfig in \<open>auto simp: snds.simps\<close>)
  then show ?case by simp
next
  case (ListConfig xs)
  have "same_elems xs xs"
    by (rule same_elems_refl_aux) (use ListConfig in auto)
  then show ?case by simp
qed

lemma same_items_refl: "same_items kvs kvs"
  by (rule same_items_refl_aux) (simp add: same_shape_refl)

lemma same_elems_refl: "same_elems xs xs"
  by (rule same_elems_refl_aux) (simp add: same_shape_refl)

lemma traverse_shape:
  "same_shape c (fst (traverse_config extra c))"
  "same_items kvs (fst (traverse_items extra kvs))"
  "same_elems xs (fst (traverse_elems extra xs))"
proof (induction extra c and extra kvs and extra xs
    rule: traverse_config_traverse_items_traverse_elems.induct)
  case (5 extra name "value" rest)
  then show ?case
    by (auto simp: same_shape_refl same_items_refl same_shape_leaves dict_leaf_kind
        split: prod.splits option.splits sum.splits)
next
  case (7 extra "value" rest)
  then show ?case
    by (auto simp: same_shape_refl same_elems_refl same_shape_leaves list_leaf_kind
        split: prod.splits option.splits)
qed (auto split: prod.splits)

lemma same_items_map_of:
  "same_items kvs kvs' \<Longrightarrow>
     (map_of kvs k = None \<and> map_of kvs' k = None) \<or>
     (\<exists>v v'. map_of kvs k = Some v \<and> map_of kvs' k = Some v' \<and> same_shape v v')"
proof (induction kvs arbitrary: kvs')
  case Nil
  then show ?case by (cases kvs') auto
next
  case (Cons a kvs)
  obtain n v where a: "a = (n, v)" by (cases a)
  from Cons.prems a obtain v' r' where kvs': "kvs' = (n, v') # r'"
    and sh: "same_shape v v'" and r: "same_items kvs r'"
    by (cases kvs') auto
  show ?case
  proof (cases "k = n")
    case True
    then show ?thesis using a kvs' sh by simp
  next
    case False
    then show ?thesis using a kvs' Cons.IH[OF r] by simp
  qed
qed

lemma same_items_keys: "same_items kvs kvs' \<Longrightarrow> map fst kvs' = map fst kvs"
proof (induction kvs arbitrary: kvs')
  case Nil
  then show ?case by (cases kvs') auto
next
  case (Cons a kvs)
  then show ?case by (cases kvs'; cases a) auto
qed

lemma same_elems_nth:
  "same_elems xs xs' \<Longrightarrow> length xs' = length xs \<and> (\<forall>i<length xs. same_shape (xs ! i) (xs' ! i))"
proof (induction xs arbitrary: xs')
  case Nil
  then show ?case by (cases xs') auto
next
  case (Cons a xs)
  then show ?case by (cases xs') (auto simp: nth_Cons split: nat.splits)
qed

lemma same_shape_lookup:
  "same_shape a b \<Longrightarrow>
     (lookup a p = None \<and> lookup b p = None) \<or>
     (\<exists>v v'. lookup a p = Some v \<and> lookup b p = Some v' \<and> same_shape v v')"
proof (induction p arbitrary: a b)
  case Nil
  then show ?case by simp
next
  case (Cons s p)
  show ?case
  proof (cases a)
    case (Scalar x)
    with Cons.prems show ?thesis by (cases b) auto
  next
    case (DictConfig kvs)
    with Cons.prems obtain kvs' where b: "b = DictConfig kvs'" and si: "same_items kvs kvs'"
      by (cases b) auto
    show ?thesis
    proof (cases s)
      case (Key k)
      from same_items_map_of[OF si, of k] show ?thesis
      proof
        assume "map_of kvs k = None \<and> map_of kvs' k = None"
        then show ?thesis using DictConfig b Key by simp
      next
        assume "\<exists>v v'. map_of kvs k = Some v \<and> map_of kvs' k = Some v' \<and> same_shape v v'"
        then obtain v v' where "map_of kvs k = Some v" "map_of kvs' k = Some v'" "same_shape v v'"
          by blast
        then show ?thesis using Cons.IH[of v v'] DictConfig b Key by simp
      qed
    next
      case (Index i)
      then show ?thesis using DictConfig b by simp
    qed
  next
    case (ListConfig xs)
    with Cons.prems obtain xs' where b: "b = ListConfig xs'" and se: "same_elems xs xs'"
      by (cases b) auto
    show ?thesis
    proof (cases s)
      case (Key k)
      then show ?thesis using ListConfig b by simp
    next
      case (Index i)
      from same_elems_nth[OF se] show ?thesis
        using Cons.IH[of "xs ! i" "xs' ! i"] ListConfig b Index by auto
    qed
  qed
qed

subsection \<open>What a traversal that returns does to each pair and element\<close>

lemma traverse_items_map_of:
  assumes "traverse_items extra kvs = (kvs', None)"
  shows "map_of kvs k = None \<Longrightarrow> map_of kvs' k = None"
    and "map_of kvs k = Some v \<Longrightarrow> is_container v \<Longrightarrow>
           \<exists>v'. traverse_config extra v = (v', None) \<and> map_of kvs' k = Some v'"
    and "map_of kvs k = Some v \<Longrightarrow> \<not> is_container v \<Longrightarrow>
           \<exists>v'. dict_leaf extra k v = Inr v' \<and> map_of kvs' k = Some v'"
  using assms
proof (induction kvs arbitrary: kvs')
  case Nil
  { case 1 then show ?case by simp }
  { case 2 then show ?case by simp }
  { case 3 then show ?case by simp }
next
  case (Cons a kvs)
  { case 1 then show ?case using Cons.IH(1)
      by (cases a) (auto split: if_splits prod.splits option.splits sum.splits) }
  { case 2 then show ?case using Cons.IH(2)
      by (cases a) (auto split: if_splits prod.splits option.splits sum.splits) }
  { case 3 then show ?case using Cons.IH(3)
      by (cases a) (auto split: if_splits prod.splits option.splits sum.splits) }
qed

lemma traverse_elems_nth:
  assumes "traverse_elems extra xs = (xs', None)"
  shows "length xs' = length xs"
    and "i < length xs \<Longrightarrow> is_container (xs ! i) \<Longrightarrow> traverse_config extra (xs ! i) = (xs' ! i, None)"
    and "i < length xs \<Longrightarrow> \<not> is_container (xs ! i) \<Longrightarrow> xs' ! i = list_leaf extra (xs ! i)"
  using assms
proof (induction xs arbitrary: xs' i)
  case Nil
  { case 1 then show ?case by simp }
  { case 2 then show ?case by simp }
  { case 3 then show ?case by simp }
next
  case (Cons a xs)
  { case 1 then show ?case using Cons.IH(1)
      by (auto split: if_splits prod.splits option.splits) }
  { case 2 then show ?case using Cons.IH(2)
      by (cases i) (auto split: if_splits prod.splits option.splits) }
  { case 3 then show ?case using Cons.IH(3)
      by (cases i) (auto split: if_splits prod.splits option.splits) }
qed

lemma lookup_leaf_Cons: "\<not> is_container c \<Longrightarrow> lookup c (s # p) = None"
  by (cases c) auto

lemma dict_leaf_direct:
  "map_of extra name = Some v \<Longrightarrow> dict_leaf extra name value = Inr (Scalar (VStr v))"
  by (simp add: dict_leaf_def)

lemma traverse_direct_match:
  assumes "traverse_config extra T = (T', None)"
    and "lookup T (p @ [Key name]) = Some (Scalar s)"
    and "map_of extra name = Some v"
  shows "lookup T' (p @ [Key name]) = Some (Scalar (VStr v))"
  using assms(1,2)
proof (induction p arbitrary: T T')
  case Nil
  then obtain kvs where T: "T = DictConfig kvs" and m: "map_of kvs name = Some (Scalar s)"
    by (cases T) (auto split: option.splits)
  from Nil(1) T obtain kvs' where T': "T' = DictConfig kvs'" and t: "traverse_items extra kvs = (kvs', None)"
    by (auto split: prod.splits)
  from traverse_items_map_of(3)[OF t m] assms(3) show ?case
    using T' by (auto simp: dict_leaf_direct)
next
  case (Cons q p)
  show ?case
  proof (cases T)
    case (Scalar x)
    with Cons.prems(2) show ?thesis by (simp add: lookup_leaf_Cons)
  next
    case (DictConfig kvs)
    with Cons.prems obtain k child where q: "q = Key k" and m: "map_of kvs k = Some child"
      and l: "lookup child (p @ [Key name]) = Some (Scalar s)"
      by (cases q) (auto split: option.splits)
    from Cons.prems(1) DictConfig obtain kvs' where T': "T' = DictConfig kvs'"
      and t: "traverse_items extra kvs = (kvs', None)"
      by (auto split: prod.splits)
    have c: "is_container child"
    proof (rule ccontr)
      assume "\<not> is_container child"
      then have "lookup child (p @ [Key name]) = None"
        by (cases p) (simp_all add: lookup_leaf_Cons)
      with l show False by simp
    qed
    from traverse_items_map_of(2)[OF t m c] obtain child'
      where "traverse_config extra child = (child', None)" "map_of kvs' k = Some child'"
      by blast
    then show ?thesis using Cons.IH[of child child'] l T' q by simp
  next
    case (ListConfig xs)
    with Cons.prems obtain i where q: "q = Index i" and i: "i < length xs"
      and l: "lookup (xs ! i) (p @ [Key name]) = Some (Scalar s)"
      by (cases q) (auto split: if_splits)
    from Cons.prems(1) ListConfig obtain xs' where T': "T' = ListConfig xs'"
      and t: "traverse_elems extra xs = (xs', None)"
      by (auto split: prod.splits)
    have c: "is_container (xs ! i)"
    proof (rule ccontr)
      assume "\<not> is_container (xs ! i)"
      then have "lookup (xs ! i) (p @ [Key name]) = None"
        by (cases p) (simp_all add: lookup_leaf_Cons)
      with l show False by simp
    qed
    from traverse_elems_nth(2)[OF t i c] traverse_elems_nth(1)[OF t]
    show ?thesis using Cons.IH[of "xs ! i" "xs' ! i"] l T' q i by simp
  qed
qed

subsection \<open>The document finisher\<close>

lemma map_of_set_attr: "map_of (set_attr k v c) k' = (if k' = k then Some v else map_of c k')"
  by (simp add: set_attr_def update_conv')

lemma fill_missing_fields_map_of:
  "map_of (fill_missing_fields c) k =
     (if k = ''tools'' \<and> absent_or_none c ''tools'' then Some (DictConfig [])
      else if k = ''callbacks'' \<and> absent_or_none c ''callbacks'' then Some (ListConfig [])
      else map_of c k)"
  by (simp add: fill_missing_fields_def Let_def absent_or_none_def map_of_set_attr)

lemma fill_missing_fields_present:
  "\<not> absent_or_none c ''tools'' \<Longrightarrow> \<not> absent_or_none c ''callbacks'' \<Longrightarrow>
     fill_missing_fields c = c"
  by (simp add: fill_missing_fields_def)

lemma fill_missing_fields_filled:
  "\<not> absent_or_none (fill_missing_fields c) ''tools'' \<and>
   \<not> absent_or_none (fill_missing_fields c) ''callbacks''"
  by (auto simp: absent_or_none_def fill_missing_fields_map_of)

subsection \<open>The command-line loop\<close>

lemma parse_loop_step:
  "idx < length unknown - 1 \<Longrightarrow> startswith (unknown ! idx) ''--'' \<Longrightarrow>
     parse_loop unknown idx d =
       parse_loop unknown (idx + 2)
         (AList.update (drop 2 (unknown ! idx)) (unknown ! (idx + 1)) d)"
  by (subst parse_loop.simps) (simp add: Let_def)

lemma parse_loop_stop: "\<not> idx < length unknown - 1 \<Longrightarrow> parse_loop unknown idx d = Inr d"
  by (subst parse_loop.simps) simp

lemma parse_loop_pairs:
  "parse_loop (pre @ concat (map (\<lambda>(k, v). [''--'' @ k, v]) pairs)) (length pre) d
     = Inr (fold (\<lambda>(k, v). AList.update k v) pairs d)"
proof (induction pairs arbitrary: pre d)
  case Nil
  have "\<not> length pre < length pre - 1" by arith
  then show ?case by (simp add: parse_loop_stop)
next
  case (Cons a pairs)
  obtain k v where a: "a = (k, v)" by (cases a)
  define rest where "rest = concat (map (\<lambda>(k, v). [''--'' @ k, v]) pairs)"
  define pre' where "pre' = pre @ [''--'' @ k, v]"
  define u where "u = pre' @ rest"
  have u: "pre @ concat (map (\<lambda>(k, v). [''--'' @ k, v]) (a # pairs)) = u"
    by (simp add: a u_def pre'_def rest_def)
  have lt: "length pre < length u - 1"
    by (simp add: u_def pre'_def)
  have k0: "u ! length pre = ''--'' @ k"
    by (simp add: u_def pre'_def nth_append)
  have k1: "u ! (length pre + 1) = v"
    by (simp add: u_def pre'_def nth_append)
  have st: "startswith (u ! length pre) ''--''"
    by (simp add: k0 startswith_def)
  have dk: "drop 2 (u ! length pre) = k"
    by (simp add: k0)
  have len: "length pre + 2 = length pre'"
    by (simp add: pre'_def)
  have "parse_loop u (length pre) d = parse_loop u (length pre') (AList.update k v d)"
    using parse_loop_step[OF lt st, of d] by (simp only: dk k1 len)
  also have "\<dots> = Inr (fold (\<lambda>(k, v). AList.update k v) pairs (AList.update k v d))"
    unfolding u_def rest_def by (rule Cons.IH)
  finally show ?case unfolding u by (simp add: a)
qed

lemma map_of_fold_update:
  "map_of (fold (\<lambda>(k, v). AList.update k v) pairs d) = map_of d ++ map_of (rev pairs)"
proof (induction pairs arbitrary: d)
  case Nil
  show ?case by simp
next
  case (Cons a pairs)
  obtain k v where a: "a = (k, v)" by (cases a)
  show ?case
    by (auto simp: a Cons.IH update_conv' map_add_def fun_eq_iff split: option.splits)
qed

lemma distinct_fold_update:
  "distinct (map fst d) \<Longrightarrow> distinct (map fst (fold (\<lambda>(k, v). AList.update k v) pairs d))"
proof (induction pairs arbitrary: d)
  case Nil
  then show ?case by simp
next
  case (Cons a pairs)
  then show ?case by (cases a) (simp add: distinct_update)
qed

lemma update_fresh: "k \<notin> fst ` set d \<Longrightarrow> AList.update k v d = d @ [(k, v)]"
  by (induction d) auto

lemma fold_update_distinct:
  "distinct (map fst (d @ pairs)) \<Longrightarrow> fold (\<lambda>(k, v). AList.update k v) pairs d = d @ pairs"
proof (induction pairs arbitrary: d)
  case Nil
  show ?case by simp
next
  case (Cons a pairs)
  obtain k v where a: "a = (k, v)" by (cases a)
  from Cons.prems a have fresh: "k \<notin> fst ` set d" by auto
  from Cons.prems a have "distinct (map fst ((d @ [(k, v)]) @ pairs))" by auto
  from Cons.IH[OF this] show ?case by (simp add: a update_fresh[OF fresh])
qed

lemma parse_loop_fails:
  "idx \<le> i \<Longrightarrow> even (i - idx) \<Longrightarrow> i < length unknown - 1 \<Longrightarrow>
   \<not> startswith (unknown ! i) ''--'' \<Longrightarrow>
     parse_loop unknown idx d = Inl (AssertionError ''Parameter not correct'')"
proof (induction unknown idx d rule: parse_loop.induct)
  case (1 unknown idx d)
  from "1.prems" have lt: "idx < length unknown - 1" by simp
  show ?case
  proof (cases "startswith (unknown ! idx) ''--''")
    case False
    with lt show ?thesis by (subst parse_loop.simps) simp
  next
    case True
    with "1.prems"(4) have "idx \<noteq> i" by auto
    with "1.prems"(1,2) have le: "idx + 2 \<le> i"
      by (cases "i = Suc idx") auto
    with "1.prems"(2) have ev: "even (i - (idx + 2))" by simp
    have "parse_loop unknown (idx + 2)
            (AList.update (drop 2 (unknown ! idx)) (unknown ! (idx + 1)) d)
          = Inl (AssertionError ''Parameter not correct'')"
      using "1.IH"[OF lt refl refl True le ev "1.prems"(3,4)] .
    with lt True show ?thesis by (subst parse_loop.simps) (simp add: Let_def)
  qed
qed

lemma parse_loop_returns:
  "(\<forall>i. idx \<le> i \<and> even (i - idx) \<and> i < length unknown - 1 \<longrightarrow> startswith (unknown ! i) ''--'')
     \<Longrightarrow> \<exists>d'. parse_loop unknown idx d = Inr d'"
proof (induction unknown idx d rule: parse_loop.induct)
  case (1 unknown idx d)
  show ?case
  proof (cases "idx < length unknown - 1")
    case False
    then show ?thesis by (subst parse_loop.simps) simp
  next
    case True
    with "1.prems" have st: "startswith (unknown ! idx) ''--''" by simp
    have "\<forall>i. idx + 2 \<le> i \<and> even (i - (idx + 2)) \<and> i < length unknown - 1
            \<longrightarrow> startswith (unknown ! i) ''--''"
      using "1.prems" by auto
    from "1.IH"[OF True refl refl st this] True st show ?thesis
      by (subst parse_loop.simps) (simp add: Let_def)
  qed
qed

lemma parse_args_fails_iff:
  "(\<exists>e. parse_args unknown = Inl e) =
     (\<exists>i. odd i \<and> i < length unknown - 1 \<and> \<not> startswith (unknown ! i) ''--'')"
  "parse_args unknown = Inl e \<Longrightarrow> e = AssertionError ''Parameter not correct''"
proof -
  have odd_iff: "(1 \<le> i \<and> even (i - 1)) = odd i" for i :: nat
    by (cases i) auto
  have a: "parse_args unknown = Inl (AssertionError ''Parameter not correct'')"
    if "odd i" "i < length unknown - 1" "\<not> startswith (unknown ! i) ''--''" for i
  proof -
    from that(2) have "unknown \<noteq> []" by auto
    moreover from that(1) have "1 \<le> i" "even (i - 1)" using odd_iff[of i] by auto
    ultimately show ?thesis
      using parse_loop_fails[of 1 i unknown "[]"] that(2,3) by (simp add: parse_args_def)
  qed
  have b: "\<exists>d. parse_args unknown = Inr d"
    if "\<forall>i. odd i \<and> i < length unknown - 1 \<longrightarrow> startswith (unknown ! i) ''--''"
  proof -
    have "\<forall>i. 1 \<le> i \<and> even (i - 1) \<and> i < length unknown - 1 \<longrightarrow> startswith (unknown ! i) ''--''"
      using that odd_iff by blast
    from parse_loop_returns[OF this, of "[]"] show ?thesis
      by (auto simp: parse_args_def)
  qed
  show "(\<exists>e. parse_args unknown = Inl e) =
     (\<exists>i. odd i \<and> i < length unknown - 1 \<and> \<not> startswith (unknown ! i) ''--'')"
    using a b by (metis Inl_Inr_False)
  show "e = AssertionError ''Parameter not correct''" if "parse_args unknown = Inl e"
    using a b that by (metis Inl_Inr_False sum.inject(1))
qed

subsection \<open>The pipeline\<close>

lemma dict_leaf_error_kind: "dict_leaf extra name v = Inl e \<Longrightarrow> e = KeyError name"
  by (auto simp: dict_leaf_def Let_def split: if_splits option.splits)

lemma traverse_error_kind:
  "snd (traverse_config extra c) = Some e \<Longrightarrow> \<exists>k. e = KeyError k"
  "snd (traverse_items extra kvs) = Some e \<Longrightarrow> \<exists>k. e = KeyError k"
  "snd (traverse_elems extra xs) = Some e \<Longrightarrow> \<exists>k. e = KeyError k"
proof (induction extra c and extra kvs and extra xs arbitrary: e and e and e
    rule: traverse_config_traverse_items_traverse_elems.induct)
  case (5 extra name "value" rest)
  then show ?case
    by (auto split: if_splits prod.splits option.splits sum.splits dest: dict_leaf_error_kind)
next
  case (7 extra "value" rest)
  then show ?case
    by (auto split: if_splits prod.splits option.splits)
qed (auto split: prod.splits)

lemma update_config_error_kind:
  assumes "update_config c extra = (Inl e, c')"
  shows "\<exists>k. e = KeyError k"
proof -
  from assms obtain ex c2 where "traverse_config ex c = (c2, Some e)"
    by (auto simp: update_config_def split: option.splits if_splits prod.splits)
  then have "snd (traverse_config ex c) = Some e" by simp
  then show ?thesis by (rule traverse_error_kind(1))
qed

lemma update_config_returns:
  "update_config T (Some extra) = (Inr r, T') \<Longrightarrow> extra \<noteq> [] \<Longrightarrow>
     traverse_config extra T = (T', None) \<and> r = None"
  by (auto simp: update_config_def split: prod.splits option.splits)

lemma lookup_set_attr_other:
  "s \<noteq> Key k \<Longrightarrow> lookup (DictConfig (set_attr k v kvs)) (s # p) = lookup (DictConfig kvs) (s # p)"
  by (cases s) (simp_all add: map_of_set_attr)

lemma lookup_fill_missing_fields:
  assumes "lookup (DictConfig kvs) (s # p) = Some x" and "x \<noteq> Scalar VNone"
  shows "lookup (DictConfig (fill_missing_fields kvs)) (s # p) = Some x"
proof -
  from assms(1) obtain k v where s: "s = Key k" and m: "map_of kvs k = Some v"
    and l: "lookup v p = Some x"
    by (cases s) (auto split: option.splits)
  have "v \<noteq> Scalar VNone"
  proof
    assume "v = Scalar VNone"
    with l assms(2) show False by (cases p) auto
  qed
  with m have "map_of (fill_missing_fields kvs) k = Some v"
    by (auto simp: fill_missing_fields_map_of absent_or_none_def)
  with s l show ?thesis by simp
qed

section \<open>The claims\<close>

text \<open>
  Claim C1: a mapping pair whose value is the placeholder \<open><k>\<close>, with \<open>k\<close> a key of
  \<open>extra\<close> and the pair's own name not a key of \<open>extra\<close>, gets the value \<open>extra[k]\<close>. The
  mapping branch assigns \<open>extra[name]\<close> where the sequence branch assigns
  \<open>extra[value[1:-1]]\<close>: on the document \<open>{model: "<model_name>"}\<close> with the override
  \<open>{model_name: "qwen-max"}\<close> the merge raises \<open>KeyError('model')\<close> and leaves the pair as it
  was, while the same placeholder inside a sequence is replaced by \<open>"qwen-max"\<close>.
\<close>

theorem placeholder_entry_raises_key_error:
  "update_config (DictConfig [(''model'', Scalar (VStr ''<model_name>''))])
       (Some [(''model_name'', ''qwen-max'')])
     = (Inl (KeyError ''model''), DictConfig [(''model'', Scalar (VStr ''<model_name>''))])
   \<and> update_config (ListConfig [Scalar (VStr ''<model_name>'')])
       (Some [(''model_name'', ''qwen-max'')])
     = (Inr None, ListConfig [Scalar (VStr ''qwen-max'')])"
  by (simp add: update_config_def dict_leaf_def list_leaf_def startswith_def endswith_def
      inner_def has_key_def)

text \<open>
  Claim C4: on the tools mapping \<open>{a: {mcp: true, x: 1}, b: {mcp: false, x: 2}, c: {x: 3}}\<close>
  the projection is said to be \<open>{mcpServers: {a: {x: 1}, c: {x: 3}}}\<close>. It is not: the copy of
  entry \<open>a\<close> is the whole sub-tree, its \<open>mcp\<close> attribute included.
\<close>

theorem project_mcp_example_counterexample:
  "convert_mcp_servers_to_json
     (DictConfig [(''tools'', DictConfig
        [(''a'', DictConfig [(''mcp'', Scalar (VBool True)), (''x'', Scalar (VInt 1))]),
         (''b'', DictConfig [(''mcp'', Scalar (VBool False)), (''x'', Scalar (VInt 2))]),
         (''c'', DictConfig [(''x'', Scalar (VInt 3))])])])
   \<noteq> Inr [(''mcpServers'',
        [(''a'', DictConfig [(''x'', Scalar (VInt 1))]),
         (''c'', DictConfig [(''x'', Scalar (VInt 3))])])]"
  by (simp add: convert_mcp_servers_to_json_def)

text \<open>
  Claim C4, amended: on that tools mapping the projection is
  \<open>{mcpServers: {a: {mcp: true, x: 1}, c: {x: 3}}}\<close>: \<open>b\<close> is left out because its \<open>mcp\<close> is
  false, \<open>c\<close> is kept because \<open>mcp\<close> defaults to true, and each kept entry is copied whole.
\<close>

theorem project_mcp_example:
  "convert_mcp_servers_to_json
     (DictConfig [(''tools'', DictConfig
        [(''a'', DictConfig [(''mcp'', Scalar (VBool True)), (''x'', Scalar (VInt 1))]),
         (''b'', DictConfig [(''mcp'', Scalar (VBool False)), (''x'', Scalar (VInt 2))]),
         (''c'', DictConfig [(''x'', Scalar (VInt 3))])])])
   = Inr [(''mcpServers'',
        [(''a'', DictConfig [(''mcp'', Scalar (VBool True)), (''x'', Scalar (VInt 1))]),
         (''c'', DictConfig [(''x'', Scalar (VInt 3))])])]"
  by (simp add: convert_mcp_servers_to_json_def)

text \<open>
  Claim C5: when the merge returns, every mapping pair \<open>(name, value)\<close> of the tree, at any
  depth, whose value is a leaf and whose name is a key of \<open>extra\<close> has the value
  \<open>extra[name]\<close> afterwards, whatever the old value was: also when it was a placeholder
  \<open><k>\<close> with \<open>k\<close> a key of \<open>extra\<close>, the result is \<open>extra[name]\<close> and not \<open>extra[k]\<close>.
\<close>

theorem direct_match_wins:
  assumes "update_config T (Some extra) = (Inr r, T')"
    and "lookup T (p @ [Key name]) = Some (Scalar s)"
    and "map_of extra name = Some v"
  shows "lookup T' (p @ [Key name]) = Some (Scalar (VStr v))"
proof -
  from assms(3) have "extra \<noteq> []" by auto
  with assms(1) have "traverse_config extra T = (T', None)"
    by (auto simp: update_config_def split: prod.splits option.splits)
  then show ?thesis using assms(2,3) by (rule traverse_direct_match)
qed

theorem direct_match_wins_witness:
  "update_config
     (DictConfig [(''llm'', DictConfig [(''model'', Scalar (VStr ''<k>''))])])
     (Some [(''model'', ''m''), (''k'', ''other'')])
   = (Inr None, DictConfig [(''llm'', DictConfig [(''model'', Scalar (VStr ''m''))])])
   \<and> lookup (DictConfig [(''llm'', DictConfig [(''model'', Scalar (VStr ''<k>''))])])
        ([Key ''llm''] @ [Key ''model'']) = Some (Scalar (VStr ''<k>''))
   \<and> map_of [(''model'', ''m''), (''k'', ''other'')] ''model'' = Some ''m''
   \<and> lookup (DictConfig [(''llm'', DictConfig [(''model'', Scalar (VStr ''m''))])])
        ([Key ''llm''] @ [Key ''model'']) = Some (Scalar (VStr ''m''))"
proof -
  have u: "update_config
     (DictConfig [(''llm'', DictConfig [(''model'', Scalar (VStr ''<k>''))])])
     (Some [(''model'', ''m''), (''k'', ''other'')])
   = (Inr None, DictConfig [(''llm'', DictConfig [(''model'', Scalar (VStr ''m''))])])"
    by (simp add: update_config_def dict_leaf_def startswith_def endswith_def
        inner_def has_key_def)
  have l: "lookup (DictConfig [(''llm'', DictConfig [(''model'', Scalar (VStr ''<k>''))])])
        ([Key ''llm''] @ [Key ''model'']) = Some (Scalar (VStr ''<k>''))"
    by simp
  have m: "map_of [(''model'', ''m''), (''k'', ''other'')] ''model'' = Some ''m''"
    by simp
  from direct_match_wins [OF u l m] u l m show ?thesis by blast
qed

text \<open>
  Claim C7: with \<open>extra\<close> absent (\<open>None\<close>) or empty the merge leaves every tree as it is
  and takes the early return of line 192: it hands back \<open>config\<close> itself, which only that
  return does (after a traversal the function returns \<open>None\<close>).
\<close>

theorem update_config_without_extra:
  "update_config T None = (Inr (Some T), T) \<and> update_config T (Some []) = (Inr (Some T), T)"
  by (simp add: update_config_def)

text \<open>
  Claim C10: whenever \<open>_update_config\<close> returns, the tree has the shape it had: at every
  position that held a mapping there is a mapping with the same keys in the same order, at
  every position that held a sequence a sequence of the same length, at every position that
  held a leaf a leaf, and no position is new.
\<close>

theorem update_config_preserves_shape:
  assumes "update_config T extra = (Inr r, T')"
  shows "same_shape T T'
    \<and> (\<forall>p kvs. lookup T p = Some (DictConfig kvs) \<longrightarrow>
          (\<exists>kvs'. lookup T' p = Some (DictConfig kvs') \<and> map fst kvs' = map fst kvs))
    \<and> (\<forall>p xs. lookup T p = Some (ListConfig xs) \<longrightarrow>
          (\<exists>xs'. lookup T' p = Some (ListConfig xs') \<and> length xs' = length xs))
    \<and> (\<forall>p s. lookup T p = Some (Scalar s) \<longrightarrow> (\<exists>s'. lookup T' p = Some (Scalar s')))
    \<and> (\<forall>p. lookup T p = None \<longrightarrow> lookup T' p = None)"
proof -
  have sh: "same_shape T T'"
  proof (cases "extra = None \<or> extra = Some []")
    case True
    with assms have "T' = T" by (auto simp: update_config_def)
    then show ?thesis by (simp add: same_shape_refl)
  next
    case False
    then obtain ex where "extra = Some ex" "ex \<noteq> []" by (cases extra) auto
    with assms have "T' = fst (traverse_config ex T)"
      by (auto simp: update_config_def split: prod.splits option.splits)
    then show ?thesis by (simp add: traverse_shape(1))
  qed
  have d: "\<exists>kvs'. lookup T' p = Some (DictConfig kvs') \<and> map fst kvs' = map fst kvs"
    if "lookup T p = Some (DictConfig kvs)" for p kvs
  proof -
    from same_shape_lookup[OF sh, of p] that obtain v' where
      "lookup T' p = Some v'" "same_shape (DictConfig kvs) v'" by auto
    then show ?thesis by (cases v') (auto dest: same_items_keys)
  qed
  have l: "\<exists>xs'. lookup T' p = Some (ListConfig xs') \<and> length xs' = length xs"
    if "lookup T p = Some (ListConfig xs)" for p xs
  proof -
    from same_shape_lookup[OF sh, of p] that obtain v' where
      "lookup T' p = Some v'" "same_shape (ListConfig xs) v'" by auto
    then show ?thesis by (cases v') (auto dest: same_elems_nth)
  qed
  have s: "\<exists>s'. lookup T' p = Some (Scalar s')"
    if "lookup T p = Some (Scalar s)" for p s
  proof -
    from same_shape_lookup[OF sh, of p] that obtain v' where
      "lookup T' p = Some v'" "same_shape (Scalar s) v'" by auto
    then show ?thesis by (cases v') auto
  qed
  have n: "lookup T' p = None" if "lookup T p = None" for p
    using same_shape_lookup[OF sh, of p] that by auto
  from sh d l s n show ?thesis by blast
qed

theorem update_config_preserves_shape_witness:
  "update_config
     (DictConfig [(''a'', Scalar (VInt 1)), (''b'', ListConfig [Scalar (VStr ''<k>''), Scalar VNone])])
     (Some [(''a'', ''2''), (''k'', ''v'')])
   = (Inr None,
      DictConfig [(''a'', Scalar (VStr ''2'')), (''b'', ListConfig [Scalar (VStr ''v''), Scalar VNone])])
   \<and> same_shape
       (DictConfig [(''a'', Scalar (VInt 1)), (''b'', ListConfig [Scalar (VStr ''<k>''), Scalar VNone])])
       (DictConfig [(''a'', Scalar (VStr ''2'')), (''b'', ListConfig [Scalar (VStr ''v''), Scalar VNone])])"
proof -
  have u: "update_config
     (DictConfig [(''a'', Scalar (VInt 1)), (''b'', ListConfig [Scalar (VStr ''<k>''), Scalar VNone])])
     (Some [(''a'', ''2''), (''k'', ''v'')])
   = (Inr None,
      DictConfig [(''a'', Scalar (VStr ''2'')), (''b'', ListConfig [Scalar (VStr ''v''), Scalar VNone])])"
    by (simp add: update_config_def dict_leaf_def list_leaf_def startswith_def endswith_def
        inner_def has_key_def)
  from update_config_preserves_shape [OF u] u show ?thesis by blast
qed

text \<open>
  Claim C8: \<open>fill_missing_fields\<close> is idempotent. One application sets \<open>tools\<close> to the
  empty mapping when it is absent or \<open>None\<close> and \<open>callbacks\<close> to the empty sequence when it
  is absent or \<open>None\<close>; a field that is present and not \<open>None\<close> keeps its value, every other
  key keeps its value, and a document that has both fields is returned as it is.
\<close>

theorem fill_missing_fields_idempotent:
  "fill_missing_fields (fill_missing_fields T) = fill_missing_fields T
   \<and> (absent_or_none T ''tools'' \<longrightarrow> map_of (fill_missing_fields T) ''tools'' = Some (DictConfig []))
   \<and> (absent_or_none T ''callbacks'' \<longrightarrow>
        map_of (fill_missing_fields T) ''callbacks'' = Some (ListConfig []))
   \<and> (\<not> absent_or_none T ''tools'' \<longrightarrow>
        map_of (fill_missing_fields T) ''tools'' = map_of T ''tools'')
   \<and> (\<not> absent_or_none T ''callbacks'' \<longrightarrow>
        map_of (fill_missing_fields T) ''callbacks'' = map_of T ''callbacks'')
   \<and> (\<not> absent_or_none T ''tools'' \<and> \<not> absent_or_none T ''callbacks'' \<longrightarrow>
        fill_missing_fields T = T)
   \<and> (\<forall>k. k \<noteq> ''tools'' \<and> k \<noteq> ''callbacks'' \<longrightarrow>
        map_of (fill_missing_fields T) k = map_of T k)"
proof -
  have "fill_missing_fields (fill_missing_fields T) = fill_missing_fields T"
    using fill_missing_fields_filled [of T] by (simp add: fill_missing_fields_present)
  then show ?thesis
    by (simp add: fill_missing_fields_map_of fill_missing_fields_present)
qed

theorem fill_missing_fields_idempotent_witness:
  "absent_or_none [(''tools'', Scalar VNone), (''llm'', Scalar (VStr ''x''))] ''tools''
   \<and> absent_or_none [(''tools'', Scalar VNone), (''llm'', Scalar (VStr ''x''))] ''callbacks''
   \<and> fill_missing_fields [(''tools'', Scalar VNone), (''llm'', Scalar (VStr ''x''))]
      = [(''tools'', DictConfig []), (''llm'', Scalar (VStr ''x'')), (''callbacks'', ListConfig [])]
   \<and> map_of (fill_missing_fields [(''tools'', Scalar VNone), (''llm'', Scalar (VStr ''x''))])
        ''tools'' = Some (DictConfig [])
   \<and> map_of (fill_missing_fields [(''tools'', Scalar VNone), (''llm'', Scalar (VStr ''x''))])
        ''callbacks'' = Some (ListConfig [])
   \<and> fill_missing_fields
        (fill_missing_fields [(''tools'', Scalar VNone), (''llm'', Scalar (VStr ''x''))])
      = fill_missing_fields [(''tools'', Scalar VNone), (''llm'', Scalar (VStr ''x''))]"
proof -
  have a: "absent_or_none [(''tools'', Scalar VNone), (''llm'', Scalar (VStr ''x''))] ''tools''"
    by (simp add: absent_or_none_def)
  have b: "absent_or_none [(''tools'', Scalar VNone), (''llm'', Scalar (VStr ''x''))] ''callbacks''"
    by (simp add: absent_or_none_def)
  have c: "fill_missing_fields [(''tools'', Scalar VNone), (''llm'', Scalar (VStr ''x''))]
      = [(''tools'', DictConfig []), (''llm'', Scalar (VStr ''x'')), (''callbacks'', ListConfig [])]"
    by (simp add: fill_missing_fields_def absent_or_none_def set_attr_def)
  from fill_missing_fields_idempotent
      [of "[(''tools'', Scalar VNone), (''llm'', Scalar (VStr ''x''))]"] a b c
  show ?thesis by blast
qed

text \<open>
  Claim C9: \<open>is_workflow\<close> returns true exactly when \<open>config.name\<close> is \<open>workflow.yaml\<close> or
  \<open>workflow.yml\<close>; it returns false for \<open>agent.yaml\<close>, \<open>agent.yml\<close> and every other value that is
  not \<open>None\<close>; and when the name is unset or \<open>None\<close> it raises instead of returning.
\<close>

theorem is_workflow_classification:
  "(is_workflow config = Inr True) =
      (map_of config ''name'' = Some (Scalar (VStr ''workflow.yaml''))
       \<or> map_of config ''name'' = Some (Scalar (VStr ''workflow.yml'')))
   \<and> (map_of config ''name'' = Some (Scalar (VStr ''agent.yaml''))
       \<or> map_of config ''name'' = Some (Scalar (VStr ''agent.yml''))
        \<longrightarrow> is_workflow config = Inr False)
   \<and> (\<forall>v. map_of config ''name'' = Some v \<and> v \<noteq> Scalar VNone
        \<and> v \<noteq> Scalar (VStr ''workflow.yaml'') \<and> v \<noteq> Scalar (VStr ''workflow.yml'')
        \<longrightarrow> is_workflow config = Inr False)
   \<and> (map_of config ''name'' = None \<or> map_of config ''name'' = Some (Scalar VNone)
        \<longrightarrow> (\<exists>e. is_workflow config = Inl e))"
  by (auto simp: is_workflow_def split: option.splits)

theorem is_workflow_classification_witness:
  "is_workflow [(''name'', Scalar (VStr ''workflow.yml''))] = Inr True
   \<and> is_workflow [(''name'', Scalar (VStr ''agent.yaml''))] = Inr False
   \<and> (\<exists>e. is_workflow [(''name'', Scalar VNone)] = Inl e)
   \<and> (\<exists>e. is_workflow [] = Inl e)"
  using is_workflow_classification [of "[(''name'', Scalar (VStr ''workflow.yml''))]"]
    is_workflow_classification [of "[(''name'', Scalar (VStr ''agent.yaml''))]"]
    is_workflow_classification [of "[(''name'', Scalar VNone)]"]
    is_workflow_classification [of "[]"]
  by simp

text \<open>
  Claim C2: an argument list made only of \<open>--key value\<close> pairs is said to give the map of
  the keys to their values. It does not: the loop starts at index 1, so the list
  \<open>--a 1\<close> gives the empty map, and on \<open>--a 1 --b 2\<close> the token \<open>1\<close> is taken for a key and the
  assertion fails.
\<close>

theorem parse_args_pairs_only_counterexample:
  "parse_args [''--a'', ''1''] = Inr []
   \<and> parse_args [''--a'', ''1''] \<noteq> Inr [(''a'', ''1'')]
   \<and> parse_args [''--a'', ''1'', ''--b'', ''2''] = Inl (AssertionError ''Parameter not correct'')"
  by (simp add: parse_args_def parse_loop.simps startswith_def)

text \<open>
  Claim C2, amended: for every list of unrecognised tokens that consists of one leading
  token (which is skipped; the sub-command of the command line) followed only by
  \<open>--key value\<close> pairs, \<open>parse_args\<close> returns a flat map with exactly one entry for each key,
  the key without its \<open>--\<close> and the value of its last pair; when no key is repeated, the map
  is the list of the pairs, in their order.
\<close>

theorem parse_args_after_leading_token:
  "\<exists>d. parse_args (t # concat (map (\<lambda>(k, v). [''--'' @ k, v]) pairs)) = Inr d
       \<and> distinct (map fst d)
       \<and> map_of d = map_of (rev pairs)
       \<and> (distinct (map fst pairs) \<longrightarrow> d = pairs)"
proof -
  let ?d = "fold (\<lambda>(k, v). AList.update k v) pairs []"
  have "parse_loop ([t] @ concat (map (\<lambda>(k, v). [''--'' @ k, v]) pairs)) (length [t]) [] = Inr ?d"
    by (rule parse_loop_pairs)
  then have "parse_args (t # concat (map (\<lambda>(k, v). [''--'' @ k, v]) pairs)) = Inr ?d"
    by (simp add: parse_args_def)
  moreover have "distinct (map fst ?d)" by (rule distinct_fold_update) simp
  moreover have "map_of ?d = map_of (rev pairs)" by (simp add: map_of_fold_update)
  moreover have "distinct (map fst pairs) \<longrightarrow> ?d = pairs"
    using fold_update_distinct[of "[]" pairs] by simp
  ultimately show ?thesis by blast
qed

theorem parse_args_after_leading_token_witness:
  "parse_args [''run'', ''--config'', ''x'', ''--query'', ''y'']
     = Inr [(''config'', ''x''), (''query'', ''y'')]"
proof -
  have d: "distinct (map fst [(''config'', ''x''), (''query'', ''y'')])" by simp
  from parse_args_after_leading_token [of "''run''" "[(''config'', ''x''), (''query'', ''y'')]"] d
  show ?thesis by auto
qed

text \<open>
  Claim C3: malformed command-line arguments are said to stop the resolution before any
  merge pass has touched the loaded tree. They do not: \<open>parse_args\<close> runs after the pass
  with the environment map. On the document \<open>{a: 1}\<close> with the environment \<open>{a: "2"}\<close> and the
  tokens \<open>run x y\<close> the assertion fails when the tree already reads \<open>{a: "2"}\<close>; and a key
  without a value, as in \<open>run --a\<close>, raises nothing.
\<close>

theorem from_task_malformed_after_env_counterexample:
  "from_task (DictConfig [(''a'', Scalar (VInt 1))]) ''agent.yaml'' ''dir''
       [(''a'', ''2'')] [''run'', ''x'', ''y'']
     = (Inl (AssertionError ''Parameter not correct''), DictConfig [(''a'', Scalar (VStr ''2''))])
   \<and> DictConfig [(''a'', Scalar (VStr ''2''))] \<noteq> DictConfig [(''a'', Scalar (VInt 1))]
   \<and> parse_args [''run'', ''--a''] = Inr []"
  by (simp add: from_task_def update_config_def dict_leaf_def parse_args_def parse_loop.simps
      startswith_def)

text \<open>
  Claim C3, amended: when the pass with the environment map has returned, \<open>from_task\<close> raises
  the assertion error of \<open>parse_args\<close> exactly when some token at an odd index that has a
  successor does not begin with \<open>--\<close>; at that moment the tree is the one the environment
  pass left, and the pass with the command-line map has not run. A last key without a value
  is not such a token: it is ignored.
\<close>

theorem from_task_malformed_arguments:
  assumes "update_config config (Some envs) = (Inr r, config1)"
  shows "((fst (from_task config name config_dir envs unknown)
            = Inl (AssertionError ''Parameter not correct''))
          = (\<exists>i. odd i \<and> i < length unknown - 1 \<and> \<not> startswith (unknown ! i) ''--''))
       \<and> ((\<exists>i. odd i \<and> i < length unknown - 1 \<and> \<not> startswith (unknown ! i) ''--'')
           \<longrightarrow> from_task config name config_dir envs unknown
                 = (Inl (AssertionError ''Parameter not correct''), config1))"
proof (cases "\<exists>i. odd i \<and> i < length unknown - 1 \<and> \<not> startswith (unknown ! i) ''--''")
  case True
  with parse_args_fails_iff(1)[of unknown] obtain e where e: "parse_args unknown = Inl e"
    by blast
  with parse_args_fails_iff(2) have "parse_args unknown = Inl (AssertionError ''Parameter not correct'')"
    by blast
  with assms have "from_task config name config_dir envs unknown
      = (Inl (AssertionError ''Parameter not correct''), config1)"
    by (simp add: from_task_def)
  with True show ?thesis by simp
next
  case False
  with parse_args_fails_iff(1)[of unknown] obtain d where d: "parse_args unknown = Inr d"
    by (cases "parse_args unknown") auto
  have "fst (from_task config name config_dir envs unknown)
          \<noteq> Inl (AssertionError ''Parameter not correct'')"
  proof (cases "update_config config1 (Some d)")
    case (Pair res config2)
    show ?thesis
    proof (cases res)
      case (Inl e)
      with Pair update_config_error_kind obtain k where "e = KeyError k" by blast
      with assms d Pair Inl show ?thesis by (simp add: from_task_def)
    next
      case (Inr r2)
      with assms d Pair show ?thesis
        by (cases config2) (simp_all add: from_task_def Let_def)
    qed
  qed
  with False show ?thesis by blast
qed

theorem from_task_malformed_arguments_witness:
  "update_config (DictConfig [(''a'', Scalar (VInt 1))]) (Some [(''a'', ''2'')])
     = (Inr None, DictConfig [(''a'', Scalar (VStr ''2''))])
   \<and> odd (1::nat) \<and> (1::nat) < length [''run'', ''x'', ''y''] - 1
   \<and> \<not> startswith ([''run'', ''x'', ''y''] ! 1) ''--''
   \<and> from_task (DictConfig [(''a'', Scalar (VInt 1))]) ''agent.yaml'' ''dir''
        [(''a'', ''2'')] [''run'', ''x'', ''y'']
      = (Inl (AssertionError ''Parameter not correct''), DictConfig [(''a'', Scalar (VStr ''2''))])"
proof -
  have u: "update_config (DictConfig [(''a'', Scalar (VInt 1))]) (Some [(''a'', ''2'')])
     = (Inr None, DictConfig [(''a'', Scalar (VStr ''2''))])"
    by (simp add: update_config_def dict_leaf_def)
  have b: "odd (1::nat) \<and> (1::nat) < length [''run'', ''x'', ''y''] - 1
     \<and> \<not> startswith ([''run'', ''x'', ''y''] ! 1) ''--''"
    by (simp add: startswith_def)
  then have "\<exists>i. odd i \<and> i < length [''run'', ''x'', ''y''] - 1
     \<and> \<not> startswith ([''run'', ''x'', ''y''] ! i) ''--''"
    by blast
  with from_task_malformed_arguments [OF u, of "''agent.yaml''" "''dir''" "[''run'', ''x'', ''y'']"]
  have "from_task (DictConfig [(''a'', Scalar (VInt 1))]) ''agent.yaml'' ''dir''
        [(''a'', ''2'')] [''run'', ''x'', ''y'']
      = (Inl (AssertionError ''Parameter not correct''), DictConfig [(''a'', Scalar (VStr ''2''))])"
    by blast
  with u b show ?thesis by blast
qed

text \<open>
  Claim C6: whenever one key names a leaf pair and is in both override maps, the final
  value of the pair is said to be the command-line value. Not for the root fields that
  \<open>from_task\<close> assigns after the two passes: on the document \<open>{name: "x"}\<close> loaded from
  \<open>agent.yaml\<close>, with \<open>name\<close> in both maps, the returned \<open>name\<close> is \<open>agent.yaml\<close>.
\<close>

theorem from_task_cli_wins_counterexample:
  "fst (from_task (DictConfig [(''name'', Scalar (VStr ''x''))]) ''agent.yaml'' ''dir''
       [(''name'', ''e'')] [''run'', ''--name'', ''c''])
     = Inr (DictConfig [(''name'', Scalar (VStr ''agent.yaml'')),
                        (''local_dir'', Scalar (VStr ''dir'')),
                        (''tools'', DictConfig []), (''callbacks'', ListConfig [])])
   \<and> parse_args [''run'', ''--name'', ''c''] = Inr [(''name'', ''c'')]
   \<and> lookup (DictConfig [(''name'', Scalar (VStr ''x''))]) [Key ''name'']
       = Some (Scalar (VStr ''x''))
   \<and> lookup (DictConfig [(''name'', Scalar (VStr ''agent.yaml'')),
                        (''local_dir'', Scalar (VStr ''dir'')),
                        (''tools'', DictConfig []), (''callbacks'', ListConfig [])]) [Key ''name'']
       \<noteq> Some (Scalar (VStr ''c''))"
  by (simp add: from_task_def update_config_def dict_leaf_def parse_args_def parse_loop.simps
      startswith_def set_attr_def fill_missing_fields_def absent_or_none_def Let_def)

text \<open>
  Claim C6, amended: when \<open>from_task\<close> returns, it has applied exactly two merge passes to the
  loaded tree, first with the environment map and then with the command-line map, and the
  returned document is the result of the second pass with \<open>local_dir\<close> and \<open>name\<close> assigned and
  the missing fields filled. Every leaf pair whose name is a key of both maps has the
  environment value after the first pass and the command-line value after the second, and
  it has the command-line value in the returned document unless it lies at or under the
  root fields \<open>local_dir\<close> and \<open>name\<close>.
\<close>

theorem from_task_cli_wins:
  assumes ft: "from_task config name config_dir envs unknown = (Inr res, st)"
    and cli: "parse_args unknown = Inr cli"
    and entry: "lookup config (p @ [Key k]) = Some (Scalar s)"
    and e: "map_of envs k = Some ve"
    and c: "map_of cli k = Some vc"
  shows "\<exists>config1 kvs.
      update_config config (Some envs) = (Inr None, config1)
    \<and> update_config config1 (Some cli) = (Inr None, DictConfig kvs)
    \<and> res = DictConfig (fill_missing_fields
               (set_attr ''name'' (Scalar (VStr name))
                 (set_attr ''local_dir'' (Scalar (VStr config_dir)) kvs)))
    \<and> lookup config1 (p @ [Key k]) = Some (Scalar (VStr ve))
    \<and> lookup (DictConfig kvs) (p @ [Key k]) = Some (Scalar (VStr vc))
    \<and> (hd (p @ [Key k]) \<noteq> Key ''local_dir'' \<and> hd (p @ [Key k]) \<noteq> Key ''name''
         \<longrightarrow> lookup res (p @ [Key k]) = Some (Scalar (VStr vc)))"
proof -
  from e have ne: "envs \<noteq> []" by auto
  from c have nc: "cli \<noteq> []" by auto
  obtain r1 config1 where u1: "update_config config (Some envs) = (r1, config1)"
    by (cases "update_config config (Some envs)")
  obtain r2 config2 where u2: "update_config config1 (Some cli) = (r2, config2)"
    by (cases "update_config config1 (Some cli)")
  from ft u1 obtain x1 where r1: "r1 = Inr x1"
    by (cases r1) (auto simp: from_task_def)
  from ft u1 r1 cli u2 obtain x2 where r2: "r2 = Inr x2"
    by (cases r2) (auto simp: from_task_def)
  from ft u1 r1 cli u2 r2 obtain kvs where config2: "config2 = DictConfig kvs"
    by (cases config2) (auto simp: from_task_def)
  from ft u1 r1 cli u2 r2 config2
  have res: "res = DictConfig (fill_missing_fields
               (set_attr ''name'' (Scalar (VStr name))
                 (set_attr ''local_dir'' (Scalar (VStr config_dir)) kvs)))"
    by (auto simp: from_task_def Let_def)
  from update_config_returns[OF u1[unfolded r1] ne]
  have t1: "traverse_config envs config = (config1, None)" and x1: "x1 = None" by auto
  from update_config_returns[OF u2[unfolded r2] nc]
  have t2: "traverse_config cli config1 = (config2, None)" and x2: "x2 = None" by auto
  have l1: "lookup config1 (p @ [Key k]) = Some (Scalar (VStr ve))"
    using t1 entry e by (rule traverse_direct_match)
  have l2: "lookup config2 (p @ [Key k]) = Some (Scalar (VStr vc))"
    using t2 l1 c by (rule traverse_direct_match)
  have l3: "lookup res (p @ [Key k]) = Some (Scalar (VStr vc))"
    if h: "hd (p @ [Key k]) \<noteq> Key ''local_dir''" "hd (p @ [Key k]) \<noteq> Key ''name''"
  proof -
    obtain q ps where q: "p @ [Key k] = q # ps" by (cases "p @ [Key k]") auto
    with h have "q \<noteq> Key ''local_dir''" "q \<noteq> Key ''name''" by auto
    then have "lookup (DictConfig (set_attr ''name'' (Scalar (VStr name))
                 (set_attr ''local_dir'' (Scalar (VStr config_dir)) kvs))) (q # ps)
        = lookup (DictConfig kvs) (q # ps)"
      by (simp add: lookup_set_attr_other)
    with l2 config2 q have "lookup (DictConfig (set_attr ''name'' (Scalar (VStr name))
                 (set_attr ''local_dir'' (Scalar (VStr config_dir)) kvs))) (q # ps)
        = Some (Scalar (VStr vc))"
      by simp
    then have "lookup (DictConfig (fill_missing_fields (set_attr ''name'' (Scalar (VStr name))
                 (set_attr ''local_dir'' (Scalar (VStr config_dir)) kvs)))) (q # ps)
        = Some (Scalar (VStr vc))"
      by (rule lookup_fill_missing_fields) simp
    with res q show ?thesis by simp
  qed
  from u1 r1 x1 u2 r2 x2 config2 res l1 l2 l3 show ?thesis by auto
qed

theorem from_task_cli_wins_witness:
  "from_task (DictConfig [(''llm'', DictConfig [(''model'', Scalar (VStr ''base''))])])
       ''agent.yaml'' ''dir'' [(''model'', ''from-env'')] [''run'', ''--model'', ''from-cli'']
     = (Inr (DictConfig [(''llm'', DictConfig [(''model'', Scalar (VStr ''from-cli''))]),
                         (''local_dir'', Scalar (VStr ''dir'')),
                         (''name'', Scalar (VStr ''agent.yaml'')),
                         (''tools'', DictConfig []), (''callbacks'', ListConfig [])]),
        DictConfig [(''llm'', DictConfig [(''model'', Scalar (VStr ''from-cli''))]),
                         (''local_dir'', Scalar (VStr ''dir'')),
                         (''name'', Scalar (VStr ''agent.yaml'')),
                         (''tools'', DictConfig []), (''callbacks'', ListConfig [])])
   \<and> lookup (DictConfig [(''llm'', DictConfig [(''model'', Scalar (VStr ''from-cli''))]),
                         (''local_dir'', Scalar (VStr ''dir'')),
                         (''name'', Scalar (VStr ''agent.yaml'')),
                         (''tools'', DictConfig []), (''callbacks'', ListConfig [])])
        ([Key ''llm''] @ [Key ''model'']) = Some (Scalar (VStr ''from-cli''))"
proof -
  let ?res = "DictConfig [(''llm'', DictConfig [(''model'', Scalar (VStr ''from-cli''))]),
                         (''local_dir'', Scalar (VStr ''dir'')),
                         (''name'', Scalar (VStr ''agent.yaml'')),
                         (''tools'', DictConfig []), (''callbacks'', ListConfig [])]"
  have ft: "from_task (DictConfig [(''llm'', DictConfig [(''model'', Scalar (VStr ''base''))])])
       ''agent.yaml'' ''dir'' [(''model'', ''from-env'')] [''run'', ''--model'', ''from-cli'']
     = (Inr ?res, ?res)"
    by (simp add: from_task_def update_config_def dict_leaf_def parse_args_def parse_loop.simps
        startswith_def set_attr_def fill_missing_fields_def absent_or_none_def Let_def)
  have cli: "parse_args [''run'', ''--model'', ''from-cli''] = Inr [(''model'', ''from-cli'')]"
    by (simp add: parse_args_def parse_loop.simps startswith_def)
  have entry: "lookup (DictConfig [(''llm'', DictConfig [(''model'', Scalar (VStr ''base''))])])
      ([Key ''llm''] @ [Key ''model'']) = Some (Scalar (VStr ''base''))"
    by simp
  have e: "map_of [(''model'', ''from-env'')] ''model'' = Some ''from-env''" by simp
  have c: "map_of [(''model'', ''from-cli'')] ''model'' = Some ''from-cli''" by simp
  from from_task_cli_wins [OF ft cli entry e c] ft show ?thesis by auto
qed

end
